theory Spec2Isabelle
  imports Main
begin

section \<open>Values of the Go program\<close>

text \<open>
  Go strings are byte sequences, indexed by byte: a \<open>string\<close> (a list of \<open>char\<close>) here.
  The separator \<open>/\<close> is byte 47 and the variable marker \<open>:\<close> is byte 58.
  A loop index is a Go \<open>int\<close> between -1 and the length of a string, far from the
  limits of 64 bits, so it is an \<open>int\<close> here; a count that never goes below 0 is a \<open>nat\<close>.

  A run-time panic is a value: indexing out of range, calling through a nil pointer or
  nil function, \<open>panic(err)\<close> with an error value, and \<open>panic(fmt.Sprintf ...)\<close> with a message.
\<close>

datatype panic =
    IndexOutOfRange
  | NilDereference
  | PanicError string
  | PanicMessage string

text \<open>\<open>const bufferSize = 50\<close>\<close>

definition bufferSize :: nat where
  "bufferSize = 50"

text \<open>\<open>type Method string\<close>\<close>

type_synonym Method = string

text \<open>
  The transport's types (\<open>net/http\<close>) are outside the repository. A request is the pair of
  fields the router reads, \<open>req.Method\<close> and \<open>req.URL.Path\<close>; a response writer is the log of
  what has been written to it; a handler maps the writer and the request to the writer
  afterwards.
\<close>

datatype written = WriteHeader int | WriteBody string

type_synonym ResponseWriter = "written list"

record Request =
  Method :: string
  URLPath :: string

type_synonym HandlerFunc = "ResponseWriter \<Rightarrow> Request \<Rightarrow> ResponseWriter"

text \<open>\<open>type pathDetails struct\<close>: \<open>segments\<close> is an array of \<open>bufferSize\<close> strings.\<close>

record pathDetails =
  count :: nat
  segments :: "string list"

text \<open>\<open>type segment struct\<close>\<close>

record segment =
  "value" :: string
  isVariable :: bool
  ok :: bool

text \<open>
  The declaration of \<open>route\<close> is not among the source files; its fields are the ones the
  source files read and write: \<open>originalPattern\<close> and \<open>segments\<close> (set in \<open>newRoute\<close>),
  \<open>hasVariables\<close> (set in \<open>newRoute\<close>, read in \<open>addRoute\<close>), \<open>methods\<close> and \<open>handler\<close> (set in
  \<open>HandleFunc\<close>, read in \<open>ServeHTTP\<close>). A nil slice and an empty slice of methods both have
  length 0 and are both the empty list; a nil handler is \<open>None\<close>.
\<close>

record route =
  originalPattern :: string
  segments :: "segment list"
  hasVariables :: bool
  methods :: "Method list"
  handler :: "HandlerFunc option"

text \<open>
  Routes are shared through pointers (\<open>*route\<close>): the registry holds the pointer that
  \<open>HandleFunc\<close> later writes through. A pointer is an address into a store of routes;
  \<open>top\<close> is the next address that \<open>&r\<close> allocates.
\<close>

type_synonym ref = nat

record memory =
  cells :: "ref \<Rightarrow> route"
  top :: ref

definition alloc :: "memory \<Rightarrow> route \<Rightarrow> ref \<times> memory" where
  "alloc m rt = (top m, m\<lparr>cells := (cells m)(top m := rt), top := Suc (top m)\<rparr>)"

text \<open>
  \<open>type HttpRouter struct\<close>. The type \<open>httpStatusCodeHandlers\<close> is not among the source
  files; the router reads its field \<open>handlers\<close>, a map from status code to handler, and
  that map is the third field here.
\<close>

record HttpRouter =
  staticRoutes :: "string \<rightharpoonup> ref"
  variableRoutes :: "ref list"
  httpStatusCodeHandlers :: "int \<rightharpoonup> HandlerFunc"

section \<open>Segments and tokenization\<close>

text \<open>\<open>newSegment\<close>: \<open>seg[1]\<close> panics unless the string has at least two bytes.\<close>

definition newSegment :: "string \<Rightarrow> panic + segment" where
  "newSegment seg =
     (if \<not> 1 < length seg then Inl IndexOutOfRange
      else Inr \<lparr>value = seg, isVariable = (seg ! 1 = CHR '':''), ok = True\<rparr>)"

text \<open>
  The loop of \<open>splitPath\<close>, with the loop variable \<open>i\<close> and the two variables the body
  assigns, \<open>path\<close> and \<open>buffer\<close>. After a separator the body sets \<open>i = len(path)\<close> and the
  loop's \<open>i--\<close> follows. The counter \<open>j\<close> is written and never read.
\<close>

function splitPath_loop :: "string \<Rightarrow> int \<Rightarrow> segment list \<Rightarrow> panic + segment list" where
  "splitPath_loop path i buffer =
     (if 0 \<le> i then
        (if \<not> nat i < length path then Inl IndexOutOfRange
         else if path ! nat i \<noteq> CHR ''/'' then splitPath_loop path (i - 1) buffer
         else (case newSegment (drop (nat i) path) of
                 Inl e \<Rightarrow> Inl e
               | Inr sg \<Rightarrow>
                   splitPath_loop (take (nat i) path)
                     (int (length (take (nat i) path)) - 1) (buffer @ [sg])))
      else Inr buffer)"
  by pat_completeness auto
termination
  by (relation "measure (\<lambda>(path, i, buffer). nat (i + 1))") auto

definition splitPath :: "string \<Rightarrow> panic + segment list" where
  "splitPath path = splitPath_loop path (int (length path) - 1) []"

text \<open>\<open>splitIntoSegments\<close>, the second copy of the same text.\<close>

function splitIntoSegments_loop :: "string \<Rightarrow> int \<Rightarrow> segment list \<Rightarrow> panic + segment list" where
  "splitIntoSegments_loop path i buffer =
     (if 0 \<le> i then
        (if \<not> nat i < length path then Inl IndexOutOfRange
         else if path ! nat i \<noteq> CHR ''/'' then splitIntoSegments_loop path (i - 1) buffer
         else (case newSegment (drop (nat i) path) of
                 Inl e \<Rightarrow> Inl e
               | Inr sg \<Rightarrow>
                   splitIntoSegments_loop (take (nat i) path)
                     (int (length (take (nat i) path)) - 1) (buffer @ [sg])))
      else Inr buffer)"
  by pat_completeness auto
termination
  by (relation "measure (\<lambda>(path, i, buffer). nat (i + 1))") auto

definition splitIntoSegments :: "string \<Rightarrow> panic + segment list" where
  "splitIntoSegments path = splitIntoSegments_loop path (int (length path) - 1) []"

text \<open>
  \<open>processPath\<close>: \<open>s[len(s)-1]\<close> is evaluated first, so the empty string panics.
  \<open>removeTrailingSlash\<close> has the same body.
\<close>

definition processPath :: "string \<Rightarrow> panic + string" where
  "processPath s =
     (if s = [] then Inl IndexOutOfRange
      else if last s = CHR ''/'' \<and> 1 < length s then Inr (take (length s - 1) s)
      else Inr s)"

definition removeTrailingSlash :: "string \<Rightarrow> panic + string" where
  "removeTrailingSlash s =
     (if s = [] then Inl IndexOutOfRange
      else if last s = CHR ''/'' \<and> 1 < length s then Inr (take (length s - 1) s)
      else Inr s)"

text \<open>
  \<open>fullPathCheck\<close> returns the pair \<open>(path, error)\<close>; the error value is \<open>None\<close> for nil.
  No function of the source files calls it.
\<close>

definition fullPathCheck :: "string \<Rightarrow> panic + (string \<times> string option)" where
  "fullPathCheck path =
     (if path = [] then Inr (path, Some ''path supplied cannot be an empty string'')
      else if path ! 0 \<noteq> CHR ''/'' then
        Inr (path, Some (''path must begin with '' @ [CHR 0x22] @ ''/'' @ [CHR 0x22]))
      else (case removeTrailingSlash path of
              Inl e \<Rightarrow> Inl e
            | Inr p \<Rightarrow> Inr (p, None)))"

section \<open>Matching\<close>

text \<open>
  Modelled from the spec: the method \<open>compare\<close> of \<open>route\<close>, which \<open>findRoute\<close> calls, is not
  among the source files. The spec (4.4, step 4): "segment counts must be equal; then for
  each position, if the candidate segment is variable, any non-empty value at that position
  matches; if literal, the incoming segment's string value must be exactly equal. All
  positions must match for the candidate to match." The value at a position is the string
  stored at that position of the buffer, as for a literal.
\<close>

fun compare_loop :: "segment list \<Rightarrow> string list \<Rightarrow> bool" where
  "compare_loop [] ss = True"
| "compare_loop (c # cs) [] = False"
| "compare_loop (c # cs) (s # ss) =
     (if isVariable c then (if s \<noteq> [] then compare_loop cs ss else False)
      else if value c = s then compare_loop cs ss
      else False)"

definition compare :: "route \<Rightarrow> pathDetails \<Rightarrow> bool" where
  "compare rt pd =
     (if length (route.segments rt) \<noteq> count pd then False
      else compare_loop (route.segments rt) (take (count pd) (pathDetails.segments pd)))"

text \<open>
  The tokenization loop written inline in \<open>findRoute\<close>: the write
  \<open>pd.segments[pd.count] = path[i:]\<close> panics when \<open>pd.count\<close> is not below the array's
  length \<open>bufferSize\<close>; after \<open>path = path[:i]\<close> the loop's \<open>i--\<close> follows.
\<close>

function findRoute_loop :: "string \<Rightarrow> int \<Rightarrow> pathDetails \<Rightarrow> panic + pathDetails" where
  "findRoute_loop path i pd =
     (if 0 \<le> i then
        (if \<not> nat i < length path then Inl IndexOutOfRange
         else if path ! nat i \<noteq> CHR ''/'' then findRoute_loop path (i - 1) pd
         else if \<not> count pd < bufferSize then Inl IndexOutOfRange
         else findRoute_loop (take (nat i) path) (i - 1)
                (pd\<lparr>pathDetails.segments :=
                       (pathDetails.segments pd)[count pd := drop (nat i) path],
                     count := count pd + 1\<rparr>))
      else Inr pd)"
  by pat_completeness auto
termination
  by (relation "measure (\<lambda>(path, i, pd). nat (i + 1))") auto

text \<open>The scan \<open>for i := 0; i < len(r.variableRoutes); i++\<close> of \<open>findRoute\<close>.\<close>

fun findRoute_scan :: "memory \<Rightarrow> ref list \<Rightarrow> pathDetails \<Rightarrow> ref option" where
  "findRoute_scan m [] pd = None"
| "findRoute_scan m (a # as) pd =
     (if \<not> compare (cells m a) pd then findRoute_scan m as pd else Some a)"

text \<open>\<open>findRoute\<close> returns a pointer to a route, or nil (\<open>None\<close>).\<close>

definition findRoute :: "memory \<Rightarrow> HttpRouter \<Rightarrow> string \<Rightarrow> panic + ref option" where
  "findRoute m r path =
     (case processPath path of
        Inl e \<Rightarrow> Inl e
      | Inr p \<Rightarrow>
          (case staticRoutes r p of
             Some router \<Rightarrow> Inr (Some router)
           | None \<Rightarrow>
               (case findRoute_loop p (int (length p) - 1)
                       \<lparr>count = 0, pathDetails.segments = replicate bufferSize []\<rparr> of
                  Inl e \<Rightarrow> Inl e
                | Inr pd \<Rightarrow> Inr (findRoute_scan m (variableRoutes r) pd))))"

section \<open>Registration\<close>

text \<open>The loop of \<open>newRoute\<close> that sets \<open>hasVariables\<close>, which starts as false.\<close>

fun newRoute_hasVariables :: "segment list \<Rightarrow> bool" where
  "newRoute_hasVariables [] = False"
| "newRoute_hasVariables (sg # sgs) =
     (if \<not> isVariable sg then newRoute_hasVariables sgs else True)"

text \<open>
  \<open>newRoute\<close> returns the pair \<open>(*route, error)\<close>; its error is nil on every path that
  returns. The fields \<open>methods\<close> and \<open>handler\<close> start as their zero values.
\<close>

definition newRoute :: "memory \<Rightarrow> string \<Rightarrow> panic + (ref \<times> string option \<times> memory)" where
  "newRoute m path =
     (case processPath path of
        Inl e \<Rightarrow> Inl e
      | Inr p \<Rightarrow>
          (case splitPath p of
             Inl e \<Rightarrow> Inl e
           | Inr sgs \<Rightarrow>
               (let (a, m') = alloc m \<lparr>originalPattern = p, route.segments = sgs,
                                      hasVariables = newRoute_hasVariables sgs,
                                      methods = [], handler = None\<rparr>
                in Inr (a, None, m'))))"

text \<open>\<open>addRoute\<close> returns the pair \<open>(*route, error)\<close> and the router it has updated.\<close>

definition addRoute ::
  "memory \<Rightarrow> HttpRouter \<Rightarrow> string \<Rightarrow> panic + (ref option \<times> string option \<times> memory \<times> HttpRouter)" where
  "addRoute m r pattern =
     (case newRoute m pattern of
        Inl e \<Rightarrow> Inl e
      | Inr (a, err, m') \<Rightarrow>
          (case err of
             Some e \<Rightarrow> Inr (None, Some e, m', r)
           | None \<Rightarrow>
               if \<not> hasVariables (cells m' a) then
                 Inr (Some a, None, m',
                      r\<lparr>staticRoutes := (staticRoutes r)(originalPattern (cells m' a) \<mapsto> a)\<rparr>)
               else
                 Inr (Some a, None, m', r\<lparr>variableRoutes := variableRoutes r @ [a]\<rparr>)))"

text \<open>
  \<open>HandleFunc\<close> returns nothing; it either panics or not, and in both cases leaves the
  store and the router as its assignments made them. The result is the panic, if any, with
  the store and the router at that point.
\<close>

definition methodsMessage :: "string \<Rightarrow> string" where
  "methodsMessage pattern =
     ''method for pattern '' @ [CHR 0x22] @ pattern @ [CHR 0x22] @ '' are not defined!''"

definition handlerMessage :: "string \<Rightarrow> string" where
  "handlerMessage pattern =
     ''handler for pattern '' @ [CHR 0x22] @ pattern @ [CHR 0x22] @ '' is not defined!''"

definition HandleFunc ::
  "memory \<Rightarrow> HttpRouter \<Rightarrow> string \<Rightarrow> Method list \<Rightarrow> HandlerFunc option
     \<Rightarrow> panic option \<times> memory \<times> HttpRouter" where
  "HandleFunc m r pattern ms h =
     (case addRoute m r pattern of
        Inl e \<Rightarrow> (Some e, m, r)
      | Inr (ro, err, m1, r1) \<Rightarrow>
          (case err of
             Some e \<Rightarrow> (Some (PanicError e), m1, r1)
           | None \<Rightarrow>
               (case ro of
                  None \<Rightarrow> (Some NilDereference, m1, r1)
                | Some a \<Rightarrow>
                    (let m2 = m1\<lparr>cells := (cells m1)(a := (cells m1 a)\<lparr>methods := ms\<rparr>)\<rparr>
                     in if length ms = 0 then (Some (PanicMessage (methodsMessage pattern)), m2, r1)
                        else
                          (let m3 = m2\<lparr>cells := (cells m2)(a := (cells m2 a)\<lparr>handler := h\<rparr>)\<rparr>
                           in (case h of
                                 None \<Rightarrow> (Some (PanicMessage (handlerMessage pattern)), m3, r1)
                               | Some f \<Rightarrow> (None, m3, r1)))))))"

section \<open>Dispatch\<close>

text \<open>The loop of \<open>ServeHTTP\<close> that sets \<open>allowedMethod\<close>, which starts as false.\<close>

fun allowedMethod :: "Method list \<Rightarrow> string \<Rightarrow> bool" where
  "allowedMethod [] reqMethod = False"
| "allowedMethod (x # xs) reqMethod =
     (if x \<noteq> reqMethod then allowedMethod xs reqMethod else True)"

text \<open>
  \<open>ServeHTTP\<close> makes one call in each of its three branches. \<open>invoked\<close> names the call:
  the entry of the status-code table under a code, or the field \<open>handler\<close> of the route
  found. Calling a nil function panics. The result is the call made and the response
  writer after it.
\<close>

datatype invoked = StatusCodeHandler int | RouteHandler ref

definition StatusNotFound :: int where
  "StatusNotFound = 404"

definition StatusMethodNotAllowed :: int where
  "StatusMethodNotAllowed = 405"

definition call ::
  "invoked \<Rightarrow> HandlerFunc option \<Rightarrow> ResponseWriter \<Rightarrow> Request \<Rightarrow> panic + (invoked \<times> ResponseWriter)" where
  "call site f w req = (case f of None \<Rightarrow> Inl NilDereference | Some h \<Rightarrow> Inr (site, h w req))"

definition ServeHTTP ::
  "memory \<Rightarrow> HttpRouter \<Rightarrow> ResponseWriter \<Rightarrow> Request \<Rightarrow> panic + (invoked \<times> ResponseWriter)" where
  "ServeHTTP m r w req =
     (case findRoute m r (URLPath req) of
        Inl e \<Rightarrow> Inl e
      | Inr None \<Rightarrow>
          call (StatusCodeHandler StatusNotFound)
            (httpStatusCodeHandlers r StatusNotFound) w req
      | Inr (Some a) \<Rightarrow>
          if \<not> allowedMethod (methods (cells m a)) (Method req) then
            call (StatusCodeHandler StatusMethodNotAllowed)
              (httpStatusCodeHandlers r StatusMethodNotAllowed) w req
          else call (RouteHandler a) (handler (cells m a)) w req)"

text \<open>
  Modelled from the spec: \<open>newCustomHttpCodeHandlers\<close>, which \<open>NewRouter\<close> calls, is not among
  the source files. The spec (6): the router is "pre-populated with default fallback
  handlers for the not found and method not allowed status codes", each "defaulting to
  writing the corresponding status code" (7).
\<close>

definition newCustomHttpCodeHandlers :: "int \<rightharpoonup> HandlerFunc" where
  "newCustomHttpCodeHandlers =
     [StatusNotFound \<mapsto> (\<lambda>w req. w @ [WriteHeader StatusNotFound]),
      StatusMethodNotAllowed \<mapsto> (\<lambda>w req. w @ [WriteHeader StatusMethodNotAllowed])]"

definition NewRouter :: HttpRouter where
  "NewRouter =
     \<lparr>staticRoutes = Map.empty, variableRoutes = [],
      httpStatusCodeHandlers = newCustomHttpCodeHandlers\<rparr>"

text \<open>The store before any route is allocated.\<close>

definition emptyMemory :: memory where
  "emptyMemory =
     \<lparr>cells = (\<lambda>a. \<lparr>originalPattern = [], route.segments = [], hasVariables = False,
                     methods = [], handler = None\<rparr>),
      top = 0\<rparr>"

section \<open>Example registrations\<close>

text \<open>
  A registration phase: the calls of \<open>HandleFunc\<close> in order, up to the first one that panics.
\<close>

fun registrations ::
  "memory \<Rightarrow> HttpRouter \<Rightarrow> (string \<times> Method list \<times> HandlerFunc option) list
     \<Rightarrow> memory \<times> HttpRouter" where
  "registrations m r [] = (m, r)"
| "registrations m r ((pattern, ms, h) # rest) =
     (case HandleFunc m r pattern ms h of
        (Some e, m', r') \<Rightarrow> (m', r')
      | (None, m', r') \<Rightarrow> registrations m' r' rest)"

definition h1 :: HandlerFunc where
  "h1 w req = w @ [WriteBody ''h1'']"

definition h2 :: HandlerFunc where
  "h2 w req = w @ [WriteBody ''h2'']"

definition h3 :: HandlerFunc where
  "h3 w req = w @ [WriteBody ''h3'']"

text \<open>The scenario of the specification (8): three routes under \<open>/users\<close>.\<close>

definition usersRouter :: "memory \<times> HttpRouter" where
  "usersRouter = registrations emptyMemory NewRouter
     [(''/users'', [''GET''], Some h1),
      (''/users/:id'', [''GET''], Some h2),
      (''/users/:id/posts'', [''GET'', ''POST''], Some h3)]"

text \<open>
  A static and a variable route that both fit \<open>/users/new\<close>, registered in the two orders.
\<close>

definition variableFirst :: "memory \<times> HttpRouter" where
  "variableFirst = registrations emptyMemory NewRouter
     [(''/users/:id'', [''GET''], Some h2),
      (''/users/new'', [''GET''], Some h1)]"

definition staticFirst :: "memory \<times> HttpRouter" where
  "staticFirst = registrations emptyMemory NewRouter
     [(''/users/new'', [''GET''], Some h1),
      (''/users/:id'', [''GET''], Some h2)]"

text \<open>A broad variable route registered before a more specific one.\<close>

definition broadFirst :: "memory \<times> HttpRouter" where
  "broadFirst = registrations emptyMemory NewRouter
     [(''/:a/:b'', [''GET''], Some h1),
      (''/users/:id'', [''GET''], Some h2)]"

text \<open>
  The zero value \<open>HttpRouter{}\<close>: a nil map reads as an empty one, a nil slice has length 0.
\<close>

definition zeroRouter :: HttpRouter where
  "zeroRouter =
     \<lparr>staticRoutes = Map.empty, variableRoutes = [], httpStatusCodeHandlers = Map.empty\<rparr>"

text \<open>Paths of 50 and of 51 segments.\<close>

definition path50 :: string where
  "path50 = concat (replicate 50 ''/a'')"

definition path51 :: string where
  "path51 = concat (replicate 51 ''/a'')"

section \<open>The loops, one step at a time\<close>

text \<open>
  The equations of the three loops are unconditional; they are unfolded only where a proof
  names them.
\<close>

declare splitPath_loop.simps [simp del]
declare splitIntoSegments_loop.simps [simp del]
declare findRoute_loop.simps [simp del]

section \<open>Facts about the tokenization loops\<close>

lemma take_nat_succ:
  assumes "0 \<le> i" and "nat i < length path"
  shows "take (nat (i + 1)) path = take (nat i) path @ [path ! nat i]"
proof -
  have "nat (i + 1) = Suc (nat i)" using assms by simp
  then show ?thesis using assms by (simp add: take_Suc_conv_app_nth)
qed

lemma findRoute_loop_bound:
  assumes "i < int (length path)" and "length (pathDetails.segments pd) = bufferSize"
    and "count pd \<le> bufferSize"
  shows "(count pd + count_list (take (nat (i + 1)) path) CHR ''/'' \<le> bufferSize \<longrightarrow>
           (\<exists>pd'. findRoute_loop path i pd = Inr pd'
              \<and> count pd' = count pd + count_list (take (nat (i + 1)) path) CHR ''/''
              \<and> length (pathDetails.segments pd') = bufferSize))
       \<and> (bufferSize < count pd + count_list (take (nat (i + 1)) path) CHR ''/'' \<longrightarrow>
           findRoute_loop path i pd = Inl IndexOutOfRange)"
  using assms
proof (induction path i pd rule: findRoute_loop.induct)
  case (1 path i pd)
  show ?case
  proof (cases "0 \<le> i")
    case False
    then show ?thesis using "1.prems" by (simp add: findRoute_loop.simps [of path i pd])
  next
    case nonneg: True
    with "1.prems" have inr: "nat i < length path" by simp
    note tk = take_nat_succ [OF nonneg inr]
    show ?thesis
    proof (cases "path ! nat i \<noteq> CHR ''/''")
      case True
      have "i - 1 < int (length path)" using "1.prems" by simp
      from "1.IH"(1) [OF nonneg _ True this "1.prems"(2,3)] inr
      show ?thesis using True nonneg inr tk
        by (simp add: findRoute_loop.simps [of path i pd])
    next
      case sep: False
      show ?thesis
      proof (cases "count pd < bufferSize")
        case False
        then show ?thesis using sep nonneg inr tk
          by (simp add: findRoute_loop.simps [of path i pd])
      next
        case True
        let ?pd = "pd\<lparr>pathDetails.segments :=
                       (pathDetails.segments pd)[count pd := drop (nat i) path],
                     count := count pd + 1\<rparr>"
        have a: "i - 1 < int (length (take (nat i) path))" using inr nonneg by simp
        have b: "length (pathDetails.segments ?pd) = bufferSize" using "1.prems" by simp
        have c: "take (nat (i - 1 + 1)) (take (nat i) path) = take (nat i) path" by simp
        have b': "count ?pd \<le> bufferSize" using True by simp
        from "1.IH"(2) [OF nonneg _ _ _ a b b'] inr sep True
        show ?thesis using sep nonneg inr tk True c
          by (simp add: findRoute_loop.simps [of path i pd])
      qed
    qed
  qed
qed


lemma splitIntoSegments_loop_eq:
  "splitIntoSegments_loop path i buffer = splitPath_loop path i buffer"
proof (induction path i buffer rule: splitPath_loop.induct)
  case (1 path i buffer)
  show ?case
    using "1.IH"
    by (simp add: splitPath_loop.simps [of path i buffer]
          splitIntoSegments_loop.simps [of path i buffer] split: sum.splits)
qed

lemma splitPath_loop_extends:
  "splitPath_loop path i buffer = Inr sgs \<Longrightarrow> \<exists>new. sgs = buffer @ new"
proof (induction path i buffer rule: splitPath_loop.induct)
  case (1 path i buffer)
  show ?case
  proof (cases "0 \<le> i \<and> nat i < length path")
    case False
    then show ?thesis using "1.prems"
      by (auto simp add: splitPath_loop.simps [of path i buffer] split: if_splits)
  next
    case True
    show ?thesis
    proof (cases "path ! nat i \<noteq> CHR ''/''")
      case ns: True
      with True "1.prems" have "splitPath_loop path (i - 1) buffer = Inr sgs"
        by (simp add: splitPath_loop.simps [of path i buffer])
      with "1.IH"(1) True ns show ?thesis by simp
    next
      case False
      with True "1.prems" obtain sg where sg: "newSegment (drop (nat i) path) = Inr sg"
        and rec: "splitPath_loop (take (nat i) path)
                    (int (length (take (nat i) path)) - 1) (buffer @ [sg]) = Inr sgs"
        by (auto simp add: splitPath_loop.simps [of path i buffer] split: sum.splits)
      from "1.IH"(2) [OF _ _ _ sg rec] True False
      obtain new where "sgs = (buffer @ [sg]) @ new" by auto
      then show ?thesis by simp
    qed
  qed
qed

lemma loops_in_step:
  assumes "splitPath_loop path i buffer = Inr sgs"
    and "length sgs \<le> bufferSize"
    and "i < int (length path)"
    and "count pd = length buffer"
    and "length (pathDetails.segments pd) = bufferSize"
    and "take (count pd) (pathDetails.segments pd) = map value buffer"
  shows "\<exists>pd'. findRoute_loop path i pd = Inr pd' \<and> count pd' = length sgs
           \<and> length (pathDetails.segments pd') = bufferSize
           \<and> take (count pd') (pathDetails.segments pd') = map value sgs"
  using assms
proof (induction path i buffer arbitrary: pd rule: splitPath_loop.induct)
  case (1 path i buffer)
  show ?case
  proof (cases "0 \<le> i")
    case False
    then show ?thesis using "1.prems"
      by (simp add: splitPath_loop.simps [of path i buffer] findRoute_loop.simps [of path i pd])
  next
    case nonneg: True
    with "1.prems" have inr: "nat i < length path" by simp
    show ?thesis
    proof (cases "path ! nat i \<noteq> CHR ''/''")
      case ns: True
      with nonneg inr "1.prems" have rec: "splitPath_loop path (i - 1) buffer = Inr sgs"
        by (simp add: splitPath_loop.simps [of path i buffer])
      have lt: "i - 1 < int (length path)" using "1.prems" by simp
      from "1.IH"(1) [OF nonneg _ ns rec "1.prems"(2) lt "1.prems"(4,5,6)] inr
      show ?thesis using ns nonneg inr
        by (simp add: findRoute_loop.simps [of path i pd])
    next
      case sep: False
      with nonneg inr "1.prems" obtain sg where sg: "newSegment (drop (nat i) path) = Inr sg"
        and rec: "splitPath_loop (take (nat i) path)
                    (int (length (take (nat i) path)) - 1) (buffer @ [sg]) = Inr sgs"
        by (auto simp add: splitPath_loop.simps [of path i buffer] split: sum.splits)
      from sg have val: "value sg = drop (nat i) path"
        by (auto simp add: newSegment_def split: if_splits)
      from splitPath_loop_extends [OF rec] have "length buffer < length sgs" by auto
      with "1.prems" have room: "count pd < bufferSize" by simp
      let ?pd = "pd\<lparr>pathDetails.segments :=
                     (pathDetails.segments pd)[count pd := drop (nat i) path],
                   count := count pd + 1\<rparr>"
      have idx: "int (length (take (nat i) path)) - 1 = i - 1" using inr nonneg by simp
      have a: "int (length (take (nat i) path)) - 1 < int (length (take (nat i) path))" by simp
      have b: "count ?pd = length (buffer @ [sg])" using "1.prems" by simp
      have c: "length (pathDetails.segments ?pd) = bufferSize" using "1.prems" by simp
      have d: "take (count ?pd) (pathDetails.segments ?pd) = map value (buffer @ [sg])"
        using "1.prems"(4,5,6) room val
        by (simp add: take_Suc_conv_app_nth)
      from "1.IH"(2) [OF nonneg _ _ sg rec "1.prems"(2) a b c d] inr sep
      obtain pd' where "findRoute_loop (take (nat i) path) (i - 1) ?pd = Inr pd'"
        and "count pd' = length sgs" and "length (pathDetails.segments pd') = bufferSize"
        and "take (count pd') (pathDetails.segments pd') = map value sgs"
        unfolding idx by auto
      moreover have "findRoute_loop path i pd = findRoute_loop (take (nat i) path) (i - 1) ?pd"
        using sep nonneg inr room by (simp add: findRoute_loop.simps [of path i pd])
      ultimately show ?thesis by simp
    qed
  qed
qed


lemma splitPath_loop_shape:
  assumes "splitPath_loop path i buffer = Inr sgs"
    and "i < int (length path)"
    and "path \<noteq> [] \<longrightarrow> 0 \<le> i \<and> path ! 0 = CHR ''/''"
    and "\<forall>k. nat (i + 1) \<le> k \<and> k < length path \<longrightarrow> path ! k \<noteq> CHR ''/''"
  shows "\<exists>new. sgs = buffer @ new \<and> concat (rev (map value new)) = path
           \<and> (\<forall>s \<in> set new. \<exists>t. value s = CHR ''/'' # t \<and> CHR ''/'' \<notin> set t)"
  using assms
proof (induction path i buffer rule: splitPath_loop.induct)
  case (1 path i buffer)
  show ?case
  proof (cases "0 \<le> i")
    case False
    with "1.prems" have "path = []" and "sgs = buffer"
      by (auto simp add: splitPath_loop.simps [of path i buffer])
    then show ?thesis by simp
  next
    case nonneg: True
    with "1.prems" have inr: "nat i < length path" by simp
    then have ne: "path \<noteq> []" by auto
    show ?thesis
    proof (cases "path ! nat i \<noteq> CHR ''/''")
      case ns: True
      with nonneg inr "1.prems" have rec: "splitPath_loop path (i - 1) buffer = Inr sgs"
        by (simp add: splitPath_loop.simps [of path i buffer])
      have lt: "i - 1 < int (length path)" using "1.prems" by simp
      have "nat i \<noteq> 0" using ns "1.prems"(3) ne by auto
      then have pos: "path \<noteq> [] \<longrightarrow> 0 \<le> i - 1 \<and> path ! 0 = CHR ''/''"
        using "1.prems"(3) by auto
      have clean: "\<forall>k. nat (i - 1 + 1) \<le> k \<and> k < length path \<longrightarrow> path ! k \<noteq> CHR ''/''"
      proof (intro allI impI)
        fix k assume k: "nat (i - 1 + 1) \<le> k \<and> k < length path"
        show "path ! k \<noteq> CHR ''/''"
        proof (cases "k = nat i")
          case True then show ?thesis using ns by simp
        next
          case False
          with k nonneg have "nat (i + 1) \<le> k" by auto
          with k "1.prems"(4) show ?thesis by simp
        qed
      qed
      from "1.IH"(1) [OF nonneg _ ns rec lt pos clean] inr show ?thesis by simp
    next
      case sep: False
      with nonneg inr "1.prems" obtain sg where sg: "newSegment (drop (nat i) path) = Inr sg"
        and rec: "splitPath_loop (take (nat i) path)
                    (int (length (take (nat i) path)) - 1) (buffer @ [sg]) = Inr sgs"
        by (auto simp add: splitPath_loop.simps [of path i buffer] split: sum.splits)
      from sg have val: "value sg = drop (nat i) path"
        by (auto simp add: newSegment_def split: if_splits)
      have dr: "drop (nat i) path = CHR ''/'' # drop (Suc (nat i)) path"
        using sep inr Cons_nth_drop_Suc [of "nat i" path] by simp
      have tail: "CHR ''/'' \<notin> set (drop (Suc (nat i)) path)"
      proof
        assume "CHR ''/'' \<in> set (drop (Suc (nat i)) path)"
        then obtain j where j: "j < length (drop (Suc (nat i)) path)"
          and eq: "drop (Suc (nat i)) path ! j = CHR ''/''"
          by (auto simp add: in_set_conv_nth)
        from j have "Suc (nat i) + j < length path" by simp
        moreover have "nat (i + 1) \<le> Suc (nat i) + j" using nonneg by simp
        ultimately have "path ! (Suc (nat i) + j) \<noteq> CHR ''/''" using "1.prems"(4) by blast
        with eq j show False by simp
      qed
      have a: "int (length (take (nat i) path)) - 1 < int (length (take (nat i) path))" by simp
      have b: "take (nat i) path \<noteq> [] \<longrightarrow>
                 0 \<le> int (length (take (nat i) path)) - 1 \<and> take (nat i) path ! 0 = CHR ''/''"
        using "1.prems"(3) inr ne by auto
      have c: "\<forall>k. nat (int (length (take (nat i) path)) - 1 + 1) \<le> k
                 \<and> k < length (take (nat i) path) \<longrightarrow> take (nat i) path ! k \<noteq> CHR ''/''"
        using inr by auto
      from "1.IH"(2) [OF nonneg _ _ sg rec a b c] inr sep
      obtain new where n1: "sgs = (buffer @ [sg]) @ new"
        and n2: "concat (rev (map value new)) = take (nat i) path"
        and n3: "\<forall>s \<in> set new. \<exists>t. value s = CHR ''/'' # t \<and> CHR ''/'' \<notin> set t"
        by auto
      have "sgs = buffer @ (sg # new)" using n1 by simp
      moreover have "concat (rev (map value (sg # new))) = path"
        using n2 val by simp
      moreover have "\<forall>s \<in> set (sg # new). \<exists>t. value s = CHR ''/'' # t \<and> CHR ''/'' \<notin> set t"
        using n3 val dr tail by auto
      ultimately show ?thesis by blast
    qed
  qed
qed

section \<open>Classification of a segment\<close>

text \<open>
  C6. \<open>newSegment\<close> reads the byte at index 1 of the segment string. For every string of
  length at least 2 the read is in bounds, the segment keeps the string as its value, and
  \<open>isVariable\<close> holds iff that byte is \<open>:\<close>. For a string of length 1 the read is out of
  range; tokenizing the root pattern \<open>/\<close> produces such a string, so \<open>splitPath\<close> and
  \<open>newRoute\<close> panic on it.
\<close>

theorem newSegment_index_1:
  "(2 \<le> length seg \<longrightarrow>
      newSegment seg = Inr \<lparr>value = seg, isVariable = (seg ! 1 = CHR '':''), ok = True\<rparr>)
   \<and> (length seg = 1 \<longrightarrow> newSegment seg = Inl IndexOutOfRange)
   \<and> splitPath ''/'' = Inl IndexOutOfRange
   \<and> newRoute m ''/'' = Inl IndexOutOfRange"
  by (simp add: newSegment_def splitPath_def newRoute_def processPath_def
        splitPath_loop.simps [of "''/''" 0])

theorem newSegment_index_1_witness:
  "2 \<le> length ''/:id''
   \<and> newSegment ''/:id'' = Inr \<lparr>value = ''/:id'', isVariable = True, ok = True\<rparr>
   \<and> 2 \<le> length ''/users''
   \<and> newSegment ''/users'' = Inr \<lparr>value = ''/users'', isVariable = False, ok = True\<rparr>
   \<and> length ''/'' = 1
   \<and> newSegment ''/'' = Inl IndexOutOfRange"
  using newSegment_index_1 [of "''/:id''"] newSegment_index_1 [of "''/users''"]
    newSegment_index_1 [of "''/''"]
  by simp

section \<open>Static routes come first\<close>

text \<open>
  C1. For every store, every router and every request path: when the normalized path is a
  key of the static-route table, \<open>findRoute\<close> returns the route stored under that key, and it
  does so whatever the variable-route sequence (and the store it points into) holds. So a
  static route for a path wins over any variable route that fits the path, in either order
  of registration.
\<close>

theorem static_route_first:
  assumes "processPath path = Inr p" and "staticRoutes r p = Some a"
  shows "findRoute m r path = Inr (Some a)
         \<and> findRoute m' (r\<lparr>variableRoutes := vs\<rparr>) path = Inr (Some a)"
  using assms by (simp add: findRoute_def)

text \<open>
  The static route \<open>/users/new\<close> and the variable route \<open>/users/:id\<close>, registered in both
  orders: \<open>/users/new\<close> resolves to the static route each time, although the scan of the
  variable routes would stop at \<open>/users/:id\<close> for the same path.
\<close>

theorem static_route_first_witness:
  "processPath ''/users/new'' = Inr ''/users/new''
   \<and> staticRoutes (snd variableFirst) ''/users/new'' = Some 1
   \<and> variableRoutes (snd variableFirst) = [0]
   \<and> findRoute (fst variableFirst) (snd variableFirst) ''/users/new'' = Inr (Some 1)
   \<and> staticRoutes (snd staticFirst) ''/users/new'' = Some 0
   \<and> variableRoutes (snd staticFirst) = [1]
   \<and> findRoute (fst staticFirst) (snd staticFirst) ''/users/new'' = Inr (Some 0)
   \<and> findRoute (fst variableFirst) (snd variableFirst) ''/users/old'' = Inr (Some 0)
   \<and> findRoute_scan (fst variableFirst) (variableRoutes (snd variableFirst))
         (projr (findRoute_loop ''/users/new'' (int (length ''/users/new'') - 1)
                   \<lparr>count = 0, pathDetails.segments = replicate bufferSize []\<rparr>))
       = Some 0"
proof -
  have sc: "findRoute_scan (fst variableFirst) (variableRoutes (snd variableFirst))
         (projr (findRoute_loop ''/users/new'' (int (length ''/users/new'') - 1)
                   \<lparr>count = 0, pathDetails.segments = replicate bufferSize []\<rparr>))
       = Some 0"
    by code_simp
  have p: "processPath ''/users/new'' = Inr ''/users/new''" by code_simp
  have s1: "staticRoutes (snd variableFirst) ''/users/new'' = Some 1" by code_simp
  have s2: "staticRoutes (snd staticFirst) ''/users/new'' = Some 0" by code_simp
  have v1: "variableRoutes (snd variableFirst) = [0]" by code_simp
  have v2: "variableRoutes (snd staticFirst) = [1]" by code_simp
  have o: "findRoute (fst variableFirst) (snd variableFirst) ''/users/old'' = Inr (Some 0)"
    by code_simp
  from static_route_first [OF p s1, of "fst variableFirst"]
    static_route_first [OF p s2, of "fst staticFirst"]
  show ?thesis using p s1 s2 v1 v2 o sc by simp
qed

section \<open>The fixed buffer of request segments\<close>

text \<open>
  C7, as the code has it. When the normalized path is not a static key, \<open>findRoute\<close>
  tokenizes it into the buffer of \<open>bufferSize\<close> = 50 strings. The number of segments is the
  number of separators in the normalized path. With at most 50 of them every write is in
  bounds: the loop returns, its count is that number, and \<open>findRoute\<close> goes on to scan the
  variable routes. With more than 50 the write of segment 51 is out of range and
  \<open>findRoute\<close> panics with the run-time index error; nothing is written past the buffer.
\<close>

theorem findRoute_buffer_capacity:
  assumes "processPath path = Inr p" and "staticRoutes r p = None"
  shows "(count_list p CHR ''/'' \<le> bufferSize \<longrightarrow>
            (\<exists>pd. findRoute_loop p (int (length p) - 1)
                     \<lparr>count = 0, pathDetails.segments = replicate bufferSize []\<rparr> = Inr pd
               \<and> count pd = count_list p CHR ''/''
               \<and> findRoute m r path = Inr (findRoute_scan m (variableRoutes r) pd)))
       \<and> (bufferSize < count_list p CHR ''/'' \<longrightarrow> findRoute m r path = Inl IndexOutOfRange)"
proof -
  let ?pd = "\<lparr>count = 0, pathDetails.segments = replicate bufferSize []\<rparr>"
  have tk: "take (nat (int (length p) - 1 + 1)) p = p" by simp
  have "int (length p) - 1 < int (length p)" by simp
  moreover have "length (pathDetails.segments ?pd) = bufferSize" by simp
  moreover have "count ?pd \<le> bufferSize" by simp
  ultimately have
    "(count ?pd + count_list (take (nat (int (length p) - 1 + 1)) p) CHR ''/'' \<le> bufferSize \<longrightarrow>
        (\<exists>pd'. findRoute_loop p (int (length p) - 1) ?pd = Inr pd'
           \<and> count pd' = count ?pd + count_list (take (nat (int (length p) - 1 + 1)) p) CHR ''/''
           \<and> length (pathDetails.segments pd') = bufferSize))
     \<and> (bufferSize < count ?pd + count_list (take (nat (int (length p) - 1 + 1)) p) CHR ''/'' \<longrightarrow>
          findRoute_loop p (int (length p) - 1) ?pd = Inl IndexOutOfRange)"
    by (rule findRoute_loop_bound)
  then have
    "(count_list p CHR ''/'' \<le> bufferSize \<longrightarrow>
        (\<exists>pd'. findRoute_loop p (int (length p) - 1) ?pd = Inr pd'
           \<and> count pd' = count_list p CHR ''/''))
     \<and> (bufferSize < count_list p CHR ''/'' \<longrightarrow>
          findRoute_loop p (int (length p) - 1) ?pd = Inl IndexOutOfRange)"
    unfolding tk by auto
  then show ?thesis using assms by (auto simp add: findRoute_def)
qed

text \<open>A path of 50 segments, and the same path with one more.\<close>

theorem findRoute_buffer_capacity_witness:
  "processPath path50 = Inr path50 \<and> staticRoutes NewRouter path50 = None
   \<and> count_list path50 CHR ''/'' \<le> bufferSize
   \<and> findRoute emptyMemory NewRouter path50 = Inr None
   \<and> processPath (path50 @ ''/b'') = Inr (path50 @ ''/b'')
   \<and> staticRoutes NewRouter (path50 @ ''/b'') = None
   \<and> bufferSize < count_list (path50 @ ''/b'') CHR ''/''
   \<and> findRoute emptyMemory NewRouter (path50 @ ''/b'') = Inl IndexOutOfRange"
proof -
  have p: "processPath path50 = Inr path50" by code_simp
  have s: "staticRoutes NewRouter path50 = None" by (simp add: NewRouter_def)
  have c: "count_list path50 CHR ''/'' \<le> bufferSize" by code_simp
  have p': "processPath (path50 @ ''/b'') = Inr (path50 @ ''/b'')" by code_simp
  have s': "staticRoutes NewRouter (path50 @ ''/b'') = None" by (simp add: NewRouter_def)
  have c': "bufferSize < count_list (path50 @ ''/b'') CHR ''/''" by code_simp
  have v: "variableRoutes NewRouter = []" by (simp add: NewRouter_def)
  from findRoute_buffer_capacity [OF p s, of emptyMemory] c v
  have "findRoute emptyMemory NewRouter path50 = Inr None" by auto
  moreover from findRoute_buffer_capacity [OF p' s', of emptyMemory] c'
  have "findRoute emptyMemory NewRouter (path50 @ ''/b'') = Inl IndexOutOfRange" by blast
  ultimately show ?thesis using p s c p' s' c' by blast
qed

text \<open>
  C7, as stated, says that a path of more than 50 segments overflows the buffer silently.
  On a path of 51 segments \<open>findRoute\<close> does not return: it panics.
\<close>

theorem findRoute_51_segments_panics:
  "count_list path51 CHR ''/'' = 51
   \<and> findRoute emptyMemory NewRouter path51 = Inl IndexOutOfRange"
  by code_simp

section \<open>Trailing separator\<close>

text \<open>
  C8. For every non-empty path \<open>p\<close> that does not end in the separator (so \<open>p\<close> is not the
  root), \<open>p\<close> with a trailing separator and \<open>p\<close> without it normalize to \<open>p\<close>, and \<open>findRoute\<close>
  gives the same result on both. The root path \<open>/\<close> is left unchanged by normalization.
\<close>

theorem trailing_separator:
  "(p \<noteq> [] \<and> last p \<noteq> CHR ''/'' \<longrightarrow>
      processPath (p @ ''/'') = Inr p \<and> processPath p = Inr p
      \<and> findRoute m r (p @ ''/'') = findRoute m r p)
   \<and> processPath ''/'' = Inr ''/''"
  by (simp add: findRoute_def processPath_def)

theorem trailing_separator_witness:
  "''/users/42'' \<noteq> [] \<and> last ''/users/42'' \<noteq> CHR ''/''
   \<and> findRoute (fst usersRouter) (snd usersRouter) ''/users/42/'' = Inr (Some 1)
   \<and> findRoute (fst usersRouter) (snd usersRouter) ''/users/42'' = Inr (Some 1)"
proof -
  have "findRoute (fst usersRouter) (snd usersRouter) ''/users/42'' = Inr (Some 1)"
    by code_simp
  then show ?thesis
    using trailing_separator [of "''/users/42''" "fst usersRouter" "snd usersRouter"]
    by simp
qed

section \<open>The three tokenizations\<close>

text \<open>
  C9, as the code has it. \<open>splitIntoSegments\<close> and \<open>splitPath\<close> give the same result on every
  path. Whenever \<open>splitPath\<close> returns segments, and they are at most 50, the inline loop of
  \<open>findRoute\<close> returns too, with as many segments, and the strings in its buffer are the
  values of those segments, position for position. The order is from the rightmost
  separator to the leftmost: for a path that begins with the separator, every segment is a
  separator followed by separator-free text, and the segments in reverse order concatenate
  to the path.
\<close>

theorem tokenizations_agree:
  "splitIntoSegments path = splitPath path
   \<and> (\<forall>sgs. splitPath path = Inr sgs \<longrightarrow>
         (length sgs \<le> bufferSize \<longrightarrow>
            (\<exists>pd. findRoute_loop path (int (length path) - 1)
                     \<lparr>count = 0, pathDetails.segments = replicate bufferSize []\<rparr> = Inr pd
               \<and> count pd = length sgs
               \<and> take (count pd) (pathDetails.segments pd) = map value sgs))
         \<and> ((path \<noteq> [] \<longrightarrow> hd path = CHR ''/'') \<longrightarrow>
              concat (rev (map value sgs)) = path
              \<and> (\<forall>s \<in> set sgs. \<exists>t. value s = CHR ''/'' # t \<and> CHR ''/'' \<notin> set t)))"
proof (intro conjI allI impI)
  show "splitIntoSegments path = splitPath path"
    by (simp add: splitIntoSegments_def splitPath_def splitIntoSegments_loop_eq)
next
  fix sgs
  assume sp: "splitPath path = Inr sgs" and len: "length sgs \<le> bufferSize"
  let ?pd = "\<lparr>count = 0, pathDetails.segments = replicate bufferSize []\<rparr>"
  from sp have lp: "splitPath_loop path (int (length path) - 1) [] = Inr sgs"
    by (simp add: splitPath_def)
  have "\<exists>pd'. findRoute_loop path (int (length path) - 1) ?pd = Inr pd'
          \<and> count pd' = length sgs
          \<and> length (pathDetails.segments pd') = bufferSize
          \<and> take (count pd') (pathDetails.segments pd') = map value sgs"
    by (rule loops_in_step [OF lp len]) simp_all
  then show "\<exists>pd. findRoute_loop path (int (length path) - 1) ?pd = Inr pd
          \<and> count pd = length sgs
          \<and> take (count pd) (pathDetails.segments pd) = map value sgs"
    by blast
next
  fix sgs
  assume sp: "splitPath path = Inr sgs" and hd: "path \<noteq> [] \<longrightarrow> hd path = CHR ''/''"
  from sp have lp: "splitPath_loop path (int (length path) - 1) [] = Inr sgs"
    by (simp add: splitPath_def)
  have a: "int (length path) - 1 < int (length path)" by simp
  have b: "path \<noteq> [] \<longrightarrow> 0 \<le> int (length path) - 1 \<and> path ! 0 = CHR ''/''"
    using hd by (cases path) auto
  have c: "\<forall>k. nat (int (length path) - 1 + 1) \<le> k \<and> k < length path \<longrightarrow> path ! k \<noteq> CHR ''/''"
    by auto
  from splitPath_loop_shape [OF lp a b c]
  have sh: "concat (rev (map value sgs)) = path
        \<and> (\<forall>s \<in> set sgs. \<exists>t. value s = CHR ''/'' # t \<and> CHR ''/'' \<notin> set t)"
    by simp
  from sh show "concat (rev (map value sgs)) = path" by blast
  from sh show "\<forall>s \<in> set sgs. \<exists>t. value s = CHR ''/'' # t \<and> CHR ''/'' \<notin> set t"
    by blast
qed

theorem tokenizations_agree_witness:
  "splitPath ''/users/:id/posts''
     = Inr [\<lparr>value = ''/posts'', isVariable = False, ok = True\<rparr>,
            \<lparr>value = ''/:id'', isVariable = True, ok = True\<rparr>,
            \<lparr>value = ''/users'', isVariable = False, ok = True\<rparr>]
   \<and> splitIntoSegments ''/users/:id/posts'' = splitPath ''/users/:id/posts''
   \<and> (\<exists>pd. findRoute_loop ''/users/:id/posts'' (int (length ''/users/:id/posts'') - 1)
              \<lparr>count = 0, pathDetails.segments = replicate bufferSize []\<rparr> = Inr pd
         \<and> count pd = 3
         \<and> take (count pd) (pathDetails.segments pd) = [''/posts'', ''/:id'', ''/users''])"
proof -
  have sp: "splitPath ''/users/:id/posts''
     = Inr [\<lparr>value = ''/posts'', isVariable = False, ok = True\<rparr>,
            \<lparr>value = ''/:id'', isVariable = True, ok = True\<rparr>,
            \<lparr>value = ''/users'', isVariable = False, ok = True\<rparr>]"
    by code_simp
  from tokenizations_agree [of "''/users/:id/posts''"] sp
  show ?thesis by (auto simp add: bufferSize_def numeral_3_eq_3)
qed

text \<open>
  C9, as stated, is for every normalized path. On the root path \<open>/\<close> \<open>splitPath\<close> panics
  where the loop of \<open>findRoute\<close> emits the segment \<open>/\<close>; on a path of 51 segments \<open>splitPath\<close>
  returns 51 segments where the loop of \<open>findRoute\<close> panics.
\<close>

theorem tokenizations_differ:
  "splitPath ''/'' = Inl IndexOutOfRange
   \<and> findRoute_loop ''/'' (int (length ''/'') - 1)
        \<lparr>count = 0, pathDetails.segments = replicate bufferSize []\<rparr>
      = Inr \<lparr>count = 1, pathDetails.segments = ''/'' # replicate 49 []\<rparr>
   \<and> \<not> isl (splitPath path51) \<and> length (projr (splitPath path51)) = 51
   \<and> findRoute_loop path51 (int (length path51) - 1)
        \<lparr>count = 0, pathDetails.segments = replicate bufferSize []\<rparr>
      = Inl IndexOutOfRange"
  by code_simp

section \<open>Comparing a route with a tokenized path\<close>

lemma compare_loop_positions:
  "length cs = length ss \<Longrightarrow>
     compare_loop cs ss \<longleftrightarrow>
       (\<forall>i<length cs. if isVariable (cs ! i) then ss ! i \<noteq> [] else value (cs ! i) = ss ! i)"
proof (induction cs ss rule: list_induct2)
  case Nil
  show ?case by simp
next
  case (Cons c cs s ss)
  then show ?case by (simp add: All_less_Suc2)
qed

text \<open>
  C2. For every route and every tokenized path whose count is within its buffer, the
  route matches iff the numbers of segments are equal and, at every position, a variable
  segment of the route meets a non-empty string and a literal segment meets exactly its own
  string. In particular a path with a different number of segments never matches.
\<close>

theorem compare_positions:
  assumes "count pd \<le> length (pathDetails.segments pd)"
  shows "(compare rt pd \<longleftrightarrow>
            length (route.segments rt) = count pd
            \<and> (\<forall>i<count pd.
                  if isVariable (route.segments rt ! i) then pathDetails.segments pd ! i \<noteq> []
                  else value (route.segments rt ! i) = pathDetails.segments pd ! i))
       \<and> (length (route.segments rt) \<noteq> count pd \<longrightarrow> \<not> compare rt pd)"
proof (cases "length (route.segments rt) = count pd")
  case False
  then show ?thesis by (simp add: compare_def)
next
  case True
  with assms have "length (route.segments rt) = length (take (count pd) (pathDetails.segments pd))"
    by simp
  from compare_loop_positions [OF this] True show ?thesis
    by (simp add: compare_def)
qed

text \<open>
  The route \<open>/users/:id/posts\<close> of the scenario against the tokens of \<open>/users/42/posts\<close>,
  of \<open>/users/42/comments\<close> and of \<open>/users/42\<close>.
\<close>

theorem compare_positions_witness:
  "count \<lparr>count = 3, pathDetails.segments = [''/posts'', ''/42'', ''/users'', []]\<rparr>
     \<le> length (pathDetails.segments
                  \<lparr>count = 3, pathDetails.segments = [''/posts'', ''/42'', ''/users'', []]\<rparr>)
   \<and> route.segments (cells (fst usersRouter) 2)
       = [\<lparr>value = ''/posts'', isVariable = False, ok = True\<rparr>,
          \<lparr>value = ''/:id'', isVariable = True, ok = True\<rparr>,
          \<lparr>value = ''/users'', isVariable = False, ok = True\<rparr>]
   \<and> compare (cells (fst usersRouter) 2)
         \<lparr>count = 3, pathDetails.segments = [''/posts'', ''/42'', ''/users'', []]\<rparr>
   \<and> \<not> compare (cells (fst usersRouter) 2)
         \<lparr>count = 3, pathDetails.segments = [''/comments'', ''/42'', ''/users'', []]\<rparr>
   \<and> \<not> compare (cells (fst usersRouter) 2)
         \<lparr>count = 2, pathDetails.segments = [''/42'', ''/users'', [], []]\<rparr>"
proof -
  have sg: "route.segments (cells (fst usersRouter) 2)
       = [\<lparr>value = ''/posts'', isVariable = False, ok = True\<rparr>,
          \<lparr>value = ''/:id'', isVariable = True, ok = True\<rparr>,
          \<lparr>value = ''/users'', isVariable = False, ok = True\<rparr>]"
    by code_simp
  have all3: "\<And>P. (\<forall>i<3::nat. P i) \<longleftrightarrow> P 0 \<and> P 1 \<and> P 2"
    by (auto simp add: numeral_3_eq_3 numeral_2_eq_2 less_Suc_eq)
  show ?thesis
    using compare_positions [of "\<lparr>count = 3, pathDetails.segments = [''/posts'', ''/42'', ''/users'', []]\<rparr>"
                               "cells (fst usersRouter) 2"]
      compare_positions [of "\<lparr>count = 3, pathDetails.segments = [''/comments'', ''/42'', ''/users'', []]\<rparr>"
                               "cells (fst usersRouter) 2"]
      compare_positions [of "\<lparr>count = 2, pathDetails.segments = [''/42'', ''/users'', [], []]\<rparr>"
                               "cells (fst usersRouter) 2"]
    by (simp add: sg all3)
qed

section \<open>First registered, first matched\<close>

lemma findRoute_scan_first:
  "i < length vs \<Longrightarrow> compare (cells m (vs ! i)) pd \<Longrightarrow>
     (\<forall>j<i. \<not> compare (cells m (vs ! j)) pd) \<Longrightarrow> findRoute_scan m vs pd = Some (vs ! i)"
proof (induction vs arbitrary: i)
  case Nil
  then show ?case by simp
next
  case (Cons a vs)
  show ?case
  proof (cases i)
    case 0
    with Cons.prems show ?thesis by simp
  next
    case (Suc k)
    have first: "\<not> compare (cells m a) pd" using Cons.prems Suc by auto
    have rest: "\<forall>j<k. \<not> compare (cells m (vs ! j)) pd"
    proof (intro allI impI)
      fix j assume "j < k"
      then have "Suc j < i" using Suc by simp
      with Cons.prems(3) have "\<not> compare (cells m ((a # vs) ! Suc j)) pd" by blast
      then show "\<not> compare (cells m (vs ! j)) pd" by simp
    qed
    have "k < length vs" and "compare (cells m (vs ! k)) pd"
      using Cons.prems Suc by auto
    with rest have "findRoute_scan m vs pd = Some (vs ! k)"
      using Cons.IH [of k] by blast
    with first show ?thesis using Suc by simp
  qed
qed

lemma findRoute_scan_none:
  "(\<forall>a \<in> set vs. \<not> compare (cells m a) pd) \<Longrightarrow> findRoute_scan m vs pd = None"
  by (induction vs) simp_all

text \<open>
  C3. \<open>addRoute\<close> appends a route with variables at the end of \<open>variableRoutes\<close> and leaves
  the static table alone. When the normalized path is not a static key and has been
  tokenized, \<open>findRoute\<close> returns the route at the least position of \<open>variableRoutes\<close> whose
  \<open>compare\<close> succeeds, whatever routes follow it, and nil when none succeeds. So among the
  variable routes that match, the earliest registered is returned.
\<close>

theorem first_registered_first_matched:
  "(\<forall>a m1 r1. addRoute m0 r pattern = Inr (Some a, None, m1, r1) \<and> hasVariables (cells m1 a) \<longrightarrow>
       variableRoutes r1 = variableRoutes r @ [a] \<and> staticRoutes r1 = staticRoutes r)
   \<and> (\<forall>p pd. processPath path = Inr p \<and> staticRoutes r p = None
         \<and> findRoute_loop p (int (length p) - 1)
              \<lparr>count = 0, pathDetails.segments = replicate bufferSize []\<rparr> = Inr pd \<longrightarrow>
         (\<forall>i<length (variableRoutes r).
             compare (cells m (variableRoutes r ! i)) pd
             \<and> (\<forall>j<i. \<not> compare (cells m (variableRoutes r ! j)) pd) \<longrightarrow>
             findRoute m r path = Inr (Some (variableRoutes r ! i)))
         \<and> ((\<forall>a \<in> set (variableRoutes r). \<not> compare (cells m a) pd) \<longrightarrow>
               findRoute m r path = Inr None))"
proof (intro conjI allI impI)
  fix a m1 r1
  assume h: "addRoute m0 r pattern = Inr (Some a, None, m1, r1) \<and> hasVariables (cells m1 a)"
  then show "variableRoutes r1 = variableRoutes r @ [a]"
    by (auto simp add: addRoute_def split: sum.splits prod.splits option.splits if_splits)
  from h show "staticRoutes r1 = staticRoutes r"
    by (auto simp add: addRoute_def split: sum.splits prod.splits option.splits if_splits)
next
  fix p pd i
  assume h: "processPath path = Inr p \<and> staticRoutes r p = None
         \<and> findRoute_loop p (int (length p) - 1)
              \<lparr>count = 0, pathDetails.segments = replicate bufferSize []\<rparr> = Inr pd"
    and i: "i < length (variableRoutes r)"
    and c: "compare (cells m (variableRoutes r ! i)) pd
             \<and> (\<forall>j<i. \<not> compare (cells m (variableRoutes r ! j)) pd)"
  from findRoute_scan_first [OF i] c
  have "findRoute_scan m (variableRoutes r) pd = Some (variableRoutes r ! i)" by blast
  with h show "findRoute m r path = Inr (Some (variableRoutes r ! i))"
    by (simp add: findRoute_def)
next
  fix p pd
  assume h: "processPath path = Inr p \<and> staticRoutes r p = None
         \<and> findRoute_loop p (int (length p) - 1)
              \<lparr>count = 0, pathDetails.segments = replicate bufferSize []\<rparr> = Inr pd"
    and n: "\<forall>a \<in> set (variableRoutes r). \<not> compare (cells m a) pd"
  from findRoute_scan_none [OF n] h show "findRoute m r path = Inr None"
    by (simp add: findRoute_def)
qed

text \<open>
  \<open>/:a/:b\<close> is registered before \<open>/users/:id\<close>; both match \<open>/users/42\<close>, and the first is
  returned.
\<close>

theorem first_registered_first_matched_witness:
  "variableRoutes (snd broadFirst) = [0, 1]
   \<and> originalPattern (cells (fst broadFirst) 0) = ''/:a/:b''
   \<and> originalPattern (cells (fst broadFirst) 1) = ''/users/:id''
   \<and> findRoute (fst broadFirst) (snd broadFirst) ''/users/42'' = Inr (Some 0)
   \<and> findRoute (fst broadFirst) (snd broadFirst) ''/users/42/posts'' = Inr None"
proof -
  let ?pd = "projr (findRoute_loop ''/users/42'' (int (length ''/users/42'') - 1)
                     \<lparr>count = 0, pathDetails.segments = replicate bufferSize []\<rparr>)"
  let ?pd' = "projr (findRoute_loop ''/users/42/posts'' (int (length ''/users/42/posts'') - 1)
                     \<lparr>count = 0, pathDetails.segments = replicate bufferSize []\<rparr>)"
  have v: "variableRoutes (snd broadFirst) = [0, 1]" by code_simp
  have o: "originalPattern (cells (fst broadFirst) 0) = ''/:a/:b''"
    "originalPattern (cells (fst broadFirst) 1) = ''/users/:id''" by code_simp+
  have p: "processPath ''/users/42'' = Inr ''/users/42''" by code_simp
  have s: "staticRoutes (snd broadFirst) ''/users/42'' = None" by code_simp
  have l: "findRoute_loop ''/users/42'' (int (length ''/users/42'') - 1)
             \<lparr>count = 0, pathDetails.segments = replicate bufferSize []\<rparr> = Inr ?pd"
    by code_simp
  have c0: "compare (cells (fst broadFirst) 0) ?pd" by code_simp
  have c1: "compare (cells (fst broadFirst) 1) ?pd" by code_simp
  have p': "processPath ''/users/42/posts'' = Inr ''/users/42/posts''" by code_simp
  have s': "staticRoutes (snd broadFirst) ''/users/42/posts'' = None" by code_simp
  have l': "findRoute_loop ''/users/42/posts'' (int (length ''/users/42/posts'') - 1)
             \<lparr>count = 0, pathDetails.segments = replicate bufferSize []\<rparr> = Inr ?pd'"
    by code_simp
  have n0: "\<not> compare (cells (fst broadFirst) 0) ?pd'" by code_simp
  have n1: "\<not> compare (cells (fst broadFirst) 1) ?pd'" by code_simp
  from first_registered_first_matched [of emptyMemory "snd broadFirst" "[]" "''/users/42''" "fst broadFirst"]
    p s l c0 v
  have a: "findRoute (fst broadFirst) (snd broadFirst) ''/users/42'' = Inr (Some 0)"
    by fastforce
  from first_registered_first_matched [of emptyMemory "snd broadFirst" "[]" "''/users/42/posts''" "fst broadFirst"]
    p' s' l' n0 n1 v
  have b: "findRoute (fst broadFirst) (snd broadFirst) ''/users/42/posts'' = Inr None"
    by fastforce
  from v o a b show ?thesis by simp
qed

section \<open>Dispatch to one of three handlers\<close>

lemma allowedMethod_member: "allowedMethod ms x \<longleftrightarrow> x \<in> set ms"
  by (induction ms) auto

lemma HandleFunc_keeps_handlers:
  "httpStatusCodeHandlers (snd (snd (HandleFunc m r pattern ms h))) = httpStatusCodeHandlers r"
  by (auto simp add: HandleFunc_def addRoute_def Let_def
        split: sum.splits prod.splits option.splits if_splits)

lemma registrations_keep_handlers:
  "httpStatusCodeHandlers (snd (registrations m r regs)) = httpStatusCodeHandlers r"
proof (induction regs arbitrary: m r)
  case Nil
  show ?case by simp
next
  case (Cons reg regs)
  obtain pattern ms h where reg: "reg = (pattern, ms, h)" by (cases reg) auto
  obtain e m' r' where hf: "HandleFunc m r pattern ms h = (e, m', r')"
    by (cases "HandleFunc m r pattern ms h") auto
  from HandleFunc_keeps_handlers [of m r pattern ms h] hf
  have k: "httpStatusCodeHandlers r' = httpStatusCodeHandlers r" by simp
  show ?case using reg hf k Cons.IH [of m' r'] by (cases e) simp_all
qed

lemma splitPath_users:
  "splitPath ''/users'' = Inr [\<lparr>value = ''/users'', isVariable = False, ok = True\<rparr>]"
  "splitPath ''/users/:id''
     = Inr [\<lparr>value = ''/:id'', isVariable = True, ok = True\<rparr>,
            \<lparr>value = ''/users'', isVariable = False, ok = True\<rparr>]"
  "splitPath ''/users/:id/posts''
     = Inr [\<lparr>value = ''/posts'', isVariable = False, ok = True\<rparr>,
            \<lparr>value = ''/:id'', isVariable = True, ok = True\<rparr>,
            \<lparr>value = ''/users'', isVariable = False, ok = True\<rparr>]"
  by code_simp+

lemma usersRouter_handler: "handler (cells (fst usersRouter) 2) = Some h3"
  by (simp add: usersRouter_def HandleFunc_def addRoute_def newRoute_def alloc_def
        emptyMemory_def processPath_def splitPath_users Let_def)

text \<open>
  C4, as the code has it. With both fallback handlers in the status-code table, \<open>ServeHTTP\<close>
  calls the not-found fallback iff \<open>findRoute\<close> returns nil; it calls the
  method-not-allowed fallback iff \<open>findRoute\<close> returns a route and the request method is not
  among the route's methods; and it calls the handler of a route iff \<open>findRoute\<close> returns
  that route and the method is among its methods. Whenever \<open>findRoute\<close> returns, and the
  route it returns has a handler, exactly one of these three calls is made. \<open>ServeHTTP\<close>
  makes no call, and panics, exactly when \<open>findRoute\<close> itself panics or the route found
  allows the method and has a nil handler.
\<close>

theorem ServeHTTP_dispatch:
  assumes "httpStatusCodeHandlers r StatusNotFound = Some nf"
    and "httpStatusCodeHandlers r StatusMethodNotAllowed = Some na"
  shows "(ServeHTTP m r w req = Inr (StatusCodeHandler StatusNotFound, nf w req) \<longleftrightarrow>
            findRoute m r (URLPath req) = Inr None)
       \<and> (ServeHTTP m r w req = Inr (StatusCodeHandler StatusMethodNotAllowed, na w req) \<longleftrightarrow>
            (\<exists>a. findRoute m r (URLPath req) = Inr (Some a)
                \<and> Method req \<notin> set (methods (cells m a))))
       \<and> (\<forall>a h. handler (cells m a) = Some h \<longrightarrow>
            (ServeHTTP m r w req = Inr (RouteHandler a, h w req) \<longleftrightarrow>
               findRoute m r (URLPath req) = Inr (Some a)
               \<and> Method req \<in> set (methods (cells m a))))
       \<and> (\<forall>found. findRoute m r (URLPath req) = Inr found
              \<and> (\<forall>a. found = Some a \<longrightarrow> handler (cells m a) \<noteq> None) \<longrightarrow>
            (\<exists>site w'. ServeHTTP m r w req = Inr (site, w')
               \<and> (site = StatusCodeHandler StatusNotFound
                    \<or> site = StatusCodeHandler StatusMethodNotAllowed
                    \<or> (\<exists>a. site = RouteHandler a))))
       \<and> (\<forall>e. ServeHTTP m r w req = Inl e \<longleftrightarrow>
            findRoute m r (URLPath req) = Inl e
            \<or> (\<exists>a. findRoute m r (URLPath req) = Inr (Some a)
                  \<and> Method req \<in> set (methods (cells m a))
                  \<and> handler (cells m a) = None \<and> e = NilDereference))"
proof (intro conjI)
  show "ServeHTTP m r w req = Inr (StatusCodeHandler StatusNotFound, nf w req) \<longleftrightarrow>
          findRoute m r (URLPath req) = Inr None"
    using assms
    by (auto simp add: ServeHTTP_def call_def StatusNotFound_def StatusMethodNotAllowed_def
          split: sum.splits option.splits)
  show "ServeHTTP m r w req = Inr (StatusCodeHandler StatusMethodNotAllowed, na w req) \<longleftrightarrow>
          (\<exists>a. findRoute m r (URLPath req) = Inr (Some a)
              \<and> Method req \<notin> set (methods (cells m a)))"
    using assms
    by (auto simp add: ServeHTTP_def call_def allowedMethod_member StatusNotFound_def
          StatusMethodNotAllowed_def split: sum.splits option.splits)
  show "\<forall>a h. handler (cells m a) = Some h \<longrightarrow>
          (ServeHTTP m r w req = Inr (RouteHandler a, h w req) \<longleftrightarrow>
             findRoute m r (URLPath req) = Inr (Some a)
             \<and> Method req \<in> set (methods (cells m a)))"
    using assms
    by (auto simp add: ServeHTTP_def call_def allowedMethod_member
          split: sum.splits option.splits)
  show "\<forall>found. findRoute m r (URLPath req) = Inr found
            \<and> (\<forall>a. found = Some a \<longrightarrow> handler (cells m a) \<noteq> None) \<longrightarrow>
          (\<exists>site w'. ServeHTTP m r w req = Inr (site, w')
             \<and> (site = StatusCodeHandler StatusNotFound
                  \<or> site = StatusCodeHandler StatusMethodNotAllowed
                  \<or> (\<exists>a. site = RouteHandler a)))"
    using assms
    by (auto simp add: ServeHTTP_def call_def split: option.splits)
  show "\<forall>e. ServeHTTP m r w req = Inl e \<longleftrightarrow>
          findRoute m r (URLPath req) = Inl e
          \<or> (\<exists>a. findRoute m r (URLPath req) = Inr (Some a)
                \<and> Method req \<in> set (methods (cells m a))
                \<and> handler (cells m a) = None \<and> e = NilDereference)"
    using assms
    by (auto simp add: ServeHTTP_def call_def allowedMethod_member
          split: sum.splits option.splits)
qed

text \<open>The three outcomes on the router of the scenario.\<close>

theorem ServeHTTP_dispatch_witness:
  "httpStatusCodeHandlers (snd usersRouter) StatusNotFound
     = Some (\<lambda>w req. w @ [WriteHeader StatusNotFound])
   \<and> httpStatusCodeHandlers (snd usersRouter) StatusMethodNotAllowed
     = Some (\<lambda>w req. w @ [WriteHeader StatusMethodNotAllowed])
   \<and> ServeHTTP (fst usersRouter) (snd usersRouter) []
        \<lparr>Method = ''GET'', URLPath = ''/users/42/comments''\<rparr>
      = Inr (StatusCodeHandler StatusNotFound, [WriteHeader StatusNotFound])
   \<and> ServeHTTP (fst usersRouter) (snd usersRouter) []
        \<lparr>Method = ''DELETE'', URLPath = ''/users/42/posts''\<rparr>
      = Inr (StatusCodeHandler StatusMethodNotAllowed, [WriteHeader StatusMethodNotAllowed])
   \<and> ServeHTTP (fst usersRouter) (snd usersRouter) []
        \<lparr>Method = ''POST'', URLPath = ''/users/42/posts''\<rparr>
      = Inr (RouteHandler 2, [WriteBody ''h3''])"
proof -
  have nf: "httpStatusCodeHandlers (snd usersRouter) StatusNotFound
     = Some (\<lambda>w req. w @ [WriteHeader StatusNotFound])"
    unfolding usersRouter_def registrations_keep_handlers
    by (simp add: NewRouter_def newCustomHttpCodeHandlers_def StatusNotFound_def
          StatusMethodNotAllowed_def)
  have na: "httpStatusCodeHandlers (snd usersRouter) StatusMethodNotAllowed
     = Some (\<lambda>w req. w @ [WriteHeader StatusMethodNotAllowed])"
    unfolding usersRouter_def registrations_keep_handlers
    by (simp add: NewRouter_def newCustomHttpCodeHandlers_def StatusNotFound_def
          StatusMethodNotAllowed_def)
  have f1: "findRoute (fst usersRouter) (snd usersRouter) ''/users/42/comments'' = Inr None"
    by code_simp
  have f2: "findRoute (fst usersRouter) (snd usersRouter) ''/users/42/posts'' = Inr (Some 2)"
    by code_simp
  have ms: "methods (cells (fst usersRouter) 2) = [''GET'', ''POST'']" by code_simp
  note h = usersRouter_handler
  from ServeHTTP_dispatch [OF nf na, of "fst usersRouter" "[]"
         "\<lparr>Method = ''GET'', URLPath = ''/users/42/comments''\<rparr>"] f1
  have a: "ServeHTTP (fst usersRouter) (snd usersRouter) []
        \<lparr>Method = ''GET'', URLPath = ''/users/42/comments''\<rparr>
      = Inr (StatusCodeHandler StatusNotFound, [WriteHeader StatusNotFound])"
    by simp
  from ServeHTTP_dispatch [OF nf na, of "fst usersRouter" "[]"
         "\<lparr>Method = ''DELETE'', URLPath = ''/users/42/posts''\<rparr>"] f2 ms
  have b: "ServeHTTP (fst usersRouter) (snd usersRouter) []
        \<lparr>Method = ''DELETE'', URLPath = ''/users/42/posts''\<rparr>
      = Inr (StatusCodeHandler StatusMethodNotAllowed, [WriteHeader StatusMethodNotAllowed])"
    by simp
  from ServeHTTP_dispatch [OF nf na, of "fst usersRouter" "[]"
         "\<lparr>Method = ''POST'', URLPath = ''/users/42/posts''\<rparr>"]
  have "\<forall>a h. handler (cells (fst usersRouter) a) = Some h \<longrightarrow>
          (ServeHTTP (fst usersRouter) (snd usersRouter) []
             \<lparr>Method = ''POST'', URLPath = ''/users/42/posts''\<rparr>
           = Inr (RouteHandler a, h [] \<lparr>Method = ''POST'', URLPath = ''/users/42/posts''\<rparr>)
           \<longleftrightarrow>
           findRoute (fst usersRouter) (snd usersRouter)
             (URLPath \<lparr>Method = ''POST'', URLPath = ''/users/42/posts''\<rparr>) = Inr (Some a)
           \<and> Method \<lparr>Method = ''POST'', URLPath = ''/users/42/posts''\<rparr>
               \<in> set (methods (cells (fst usersRouter) a)))"
    by blast
  from this [rule_format, OF h] f2 ms
  have c: "ServeHTTP (fst usersRouter) (snd usersRouter) []
        \<lparr>Method = ''POST'', URLPath = ''/users/42/posts''\<rparr>
      = Inr (RouteHandler 2, [WriteBody ''h3''])"
    by (simp add: h3_def)
  from nf na a b c show ?thesis by simp
qed

text \<open>
  C4, as stated, is for every request. On a path of 51 segments and on the empty path
  \<open>findRoute\<close> panics, and \<open>ServeHTTP\<close> with it, before any handler is called, on a new
  router with both fallbacks in its table. A route left behind by a \<open>HandleFunc\<close> that
  panicked on its nil handler is found and allows the method, and calling its handler
  panics. On the zero router the table has no fallback to call.
\<close>

theorem ServeHTTP_calls_no_handler:
  "ServeHTTP emptyMemory NewRouter [] \<lparr>Method = ''GET'', URLPath = path51\<rparr>
     = Inl IndexOutOfRange
   \<and> ServeHTTP emptyMemory NewRouter [] \<lparr>Method = ''GET'', URLPath = []\<rparr>
     = Inl IndexOutOfRange
   \<and> fst (HandleFunc emptyMemory NewRouter ''/users'' [''GET''] None)
     = Some (PanicMessage (handlerMessage ''/users''))
   \<and> ServeHTTP (fst (snd (HandleFunc emptyMemory NewRouter ''/users'' [''GET''] None)))
        (snd (snd (HandleFunc emptyMemory NewRouter ''/users'' [''GET''] None))) []
        \<lparr>Method = ''GET'', URLPath = ''/users''\<rparr>
     = Inl NilDereference
   \<and> ServeHTTP emptyMemory zeroRouter [] \<lparr>Method = ''GET'', URLPath = ''/users''\<rparr>
     = Inl NilDereference"
  by code_simp

section \<open>Patterns that are not validated\<close>

text \<open>
  C5. \<open>newRoute\<close> calls \<open>processPath\<close>, whose checks are commented out, and not
  \<open>fullPathCheck\<close>. For the pattern \<open>users\<close>, which does not begin with the separator,
  \<open>fullPathCheck\<close> would return an error; \<open>newRoute\<close> returns a route and a nil error,
  \<open>HandleFunc\<close> does not panic, and the route is in the static table under \<open>users\<close>, where
  \<open>findRoute\<close> finds it. For the empty pattern \<open>newRoute\<close> returns no error either:
  \<open>processPath\<close> panics on its index, and nothing is registered.
\<close>

theorem pattern_without_separator_registered:
  "fullPathCheck ''users''
     = Inr (''users'', Some (''path must begin with '' @ [CHR 0x22] @ ''/'' @ [CHR 0x22]))
   \<and> \<not> isl (newRoute emptyMemory ''users'')
   \<and> fst (snd (projr (newRoute emptyMemory ''users''))) = None
   \<and> fst (HandleFunc emptyMemory NewRouter ''users'' [''GET''] (Some h1)) = None
   \<and> staticRoutes (snd (snd (HandleFunc emptyMemory NewRouter ''users'' [''GET''] (Some h1))))
        ''users'' = Some 0
   \<and> findRoute (fst (snd (HandleFunc emptyMemory NewRouter ''users'' [''GET''] (Some h1))))
        (snd (snd (HandleFunc emptyMemory NewRouter ''users'' [''GET''] (Some h1)))) ''users''
      = Inr (Some 0)
   \<and> fullPathCheck [] = Inr ([], Some ''path supplied cannot be an empty string'')
   \<and> newRoute emptyMemory [] = Inl IndexOutOfRange
   \<and> HandleFunc emptyMemory NewRouter [] [''GET''] (Some h1)
      = (Some IndexOutOfRange, emptyMemory, NewRouter)"
proof -
  have a: "fullPathCheck ''users''
     = Inr (''users'', Some (''path must begin with '' @ [CHR 0x22] @ ''/'' @ [CHR 0x22]))"
    "\<not> isl (newRoute emptyMemory ''users'')"
    "fst (snd (projr (newRoute emptyMemory ''users''))) = None"
    "fst (HandleFunc emptyMemory NewRouter ''users'' [''GET''] (Some h1)) = None"
    "staticRoutes (snd (snd (HandleFunc emptyMemory NewRouter ''users'' [''GET''] (Some h1))))
        ''users'' = Some 0"
    "findRoute (fst (snd (HandleFunc emptyMemory NewRouter ''users'' [''GET''] (Some h1))))
        (snd (snd (HandleFunc emptyMemory NewRouter ''users'' [''GET''] (Some h1)))) ''users''
      = Inr (Some 0)"
    "fullPathCheck [] = Inr ([], Some ''path supplied cannot be an empty string'')"
    by code_simp+
  have b: "newRoute emptyMemory [] = Inl IndexOutOfRange"
    by (simp add: newRoute_def processPath_def)
  have c: "HandleFunc emptyMemory NewRouter [] [''GET''] (Some h1)
      = (Some IndexOutOfRange, emptyMemory, NewRouter)"
    by (simp add: HandleFunc_def addRoute_def b)
  from a b c show ?thesis by blast
qed

section \<open>Registration that panics half-way\<close>



end
